theory Spec2Isabelle
  imports Complex_Main
begin

section \<open>Gaussian process regression engine of libgp: a shallow embedding of gp.cc\<close>

text \<open>
  The embedding follows \<^verbatim>\<open>src/src/gp.cc\<close> member function by member function. A
  \<^verbatim>\<open>double\<close> is a \<^typ>\<open>real\<close>: arithmetic is exact, rounding is not part of the
  model. An \<^verbatim>\<open>Eigen::VectorXd\<close> is a list of reals, an \<^verbatim>\<open>Eigen::MatrixXd\<close> a
  function from row and column to the entry. Memory that the code allocates and does not
  initialise holds \<^term>\<open>undefined\<close>. A bare array argument (\<^verbatim>\<open>const double x[]\<close>) is
  the list of the values stored behind the pointer; reading past its end has no defined
  behaviour in C++, and is the result \<^term>\<open>None\<close> of the model.
\<close>

subsection \<open>Vectors, matrices and bare arrays\<close>

type_synonym VectorXd = "real list"
type_synonym MatrixXd = "nat \<Rightarrow> nat \<Rightarrow> real"

text \<open>\<^verbatim>\<open>Eigen::MatrixXd K(n, n)\<close>: storage without initial values.\<close>

definition MatrixXd_new :: MatrixXd where
  "MatrixXd_new = (\<lambda>r c. undefined)"

text \<open>\<^verbatim>\<open>K(r, c) = v\<close>.\<close>

definition coeff_set :: "MatrixXd \<Rightarrow> nat \<Rightarrow> nat \<Rightarrow> real \<Rightarrow> MatrixXd" where
  "coeff_set K r c v = K(r := (K r)(c := v))"

text \<open>\<^verbatim>\<open>alpha.resize(n)\<close>: a vector of the same size is kept, any other size is
  reallocated without initial values.\<close>

definition resize :: "nat \<Rightarrow> VectorXd \<Rightarrow> VectorXd" where
  "resize n v = (if length v = n then v else replicate n undefined)"

text \<open>Reading the first \<open>n\<close> entries behind a pointer: \<^verbatim>\<open>p[0]\<close> to \<^verbatim>\<open>p[n-1]\<close>.\<close>

definition read_array :: "real list \<Rightarrow> nat \<Rightarrow> VectorXd option" where
  "read_array a n = (if n \<le> length a then Some (take n a) else None)"

subsection \<open>The linear algebra the engine calls\<close>

text \<open>
  The Eigen library is not part of the sources. The operations of it that \<^verbatim>\<open>predict\<close>
  calls are modelled from what the spec says of them: the dot product, the Cholesky
  factorisation \<open>K = L L\<^sup>T\<close> that reads the lower triangle of \<open>K\<close>, forward substitution
  against \<open>L\<close> and backward substitution against \<open>L\<^sup>T\<close>. They are written in exact
  arithmetic. The factorisation records in \<open>info\<close> whether every pivot was positive, as
  \<^verbatim>\<open>Eigen::LLT::info()\<close> does; when it was not, the library leaves the content of the
  factor unspecified, and no statement below depends on the values the formulas give in
  that case. An operation on vectors whose sizes do not fit (an assertion of the library)
  is \<^term>\<open>None\<close>.
\<close>

text \<open>Modelled from the spec: \<^verbatim>\<open>a.dot(b)\<close> of Eigen, the dot product of two vectors of
  one size.\<close>

definition dot :: "VectorXd \<Rightarrow> VectorXd \<Rightarrow> real option" where
  "dot a b = (if length a = length b then Some (\<Sum>i<length a. a ! i * b ! i) else None)"

text \<open>Modelled from the spec: the entries of the Cholesky factor \<open>L\<close> with \<open>K = L L\<^sup>T\<close>,
  computed from the lower triangle of \<open>K\<close>; entries above the diagonal are 0.\<close>

function chol :: "MatrixXd \<Rightarrow> nat \<Rightarrow> nat \<Rightarrow> real" where
  "chol K i j =
     (if i < j then 0
      else if i = j then sqrt (K j j - (\<Sum>k<j. (chol K j k)\<^sup>2))
      else (K i j - (\<Sum>k<j. chol K i k * chol K j k)) / chol K j j)"
  by pat_completeness auto
termination
  by (relation "measures [\<lambda>(K, i, j). i, \<lambda>(K, i, j). j]") auto

declare chol.simps [simp del]

text \<open>Modelled from the spec: the value whose square root is the \<open>j\<close>-th diagonal entry
  of the factor; the matrix is positive definite when every one is positive.\<close>

definition pivot :: "MatrixXd \<Rightarrow> nat \<Rightarrow> real" where
  "pivot K j = K j j - (\<Sum>k<j. (chol K j k)\<^sup>2)"

text \<open>Modelled from the spec: the object \<^verbatim>\<open>Eigen::LLT<Eigen::MatrixXd>\<close> that
  \<^verbatim>\<open>K.llt()\<close> returns, with the size of the matrix, the factor and the outcome.\<close>

datatype ComputationInfo = Success | NumericalIssue

record LLT =
  llt_size :: nat
  matrixL :: MatrixXd
  info :: ComputationInfo

text \<open>Modelled from the spec: \<^verbatim>\<open>K.llt()\<close> of Eigen for an \<open>n \<times> n\<close> matrix, the Cholesky
  factorisation, not positive definite when a pivot is not positive.\<close>

definition llt :: "nat \<Rightarrow> MatrixXd \<Rightarrow> LLT" where
  "llt n K = \<lparr> llt_size = n, matrixL = chol K,
               info = (if list_all (\<lambda>j. 0 < pivot K j) [0..<n] then Success else NumericalIssue) \<rparr>"

text \<open>Modelled from the spec: forward substitution, the solution \<open>v\<close> of \<open>L v = b\<close> entry
  by entry.\<close>

function forward_subst :: "MatrixXd \<Rightarrow> (nat \<Rightarrow> real) \<Rightarrow> nat \<Rightarrow> real" where
  "forward_subst L b i = (b i - (\<Sum>k<i. L i k * forward_subst L b k)) / L i i"
  by pat_completeness auto
termination
  by (relation "measure (\<lambda>(L, b, i). i)") auto

declare forward_subst.simps [simp del]

text \<open>Modelled from the spec: backward substitution, the solution \<open>a\<close> of \<open>L\<^sup>T a = v\<close>
  for an \<open>n \<times> n\<close> factor.\<close>

function backward_subst :: "MatrixXd \<Rightarrow> nat \<Rightarrow> (nat \<Rightarrow> real) \<Rightarrow> nat \<Rightarrow> real" where
  "backward_subst L n v i =
     (v i - (\<Sum>k\<in>{i<..<n}. L k i * backward_subst L n v k)) / L i i"
  by pat_completeness auto
termination
  by (relation "measure (\<lambda>(L, n, v, i). n - i)") auto

declare backward_subst.simps [simp del]

text \<open>Modelled from the spec: \<^verbatim>\<open>solver.matrixL().solve(b)\<close> of Eigen, forward
  substitution only.\<close>

definition matrixL_solve :: "LLT \<Rightarrow> VectorXd \<Rightarrow> VectorXd option" where
  "matrixL_solve s b =
     (if length b = llt_size s
      then Some (map (forward_subst (matrixL s) (\<lambda>k. b ! k)) [0..<llt_size s])
      else None)"

text \<open>Modelled from the spec: \<^verbatim>\<open>solver.solveInPlace(b)\<close> of Eigen, forward and then
  backward substitution against the factor.\<close>

definition solveInPlace :: "LLT \<Rightarrow> VectorXd \<Rightarrow> VectorXd option" where
  "solveInPlace s b =
     (if length b = llt_size s
      then Some (map (backward_subst (matrixL s) (llt_size s)
                        (forward_subst (matrixL s) (\<lambda>k. b ! k))) [0..<llt_size s])
      else None)"

subsection \<open>The covariance function (cov.h)\<close>

text \<open>
  The class is abstract: \<^verbatim>\<open>get\<close> is pure virtual, so the kernel of an instance is a
  field of the record, a function of the instance's hyperparameters and of the two
  input vectors.
\<close>

record CovarianceFunction =
  cov_input_dim :: nat
  param_dim :: nat
  loghyper :: VectorXd
  get :: "VectorXd \<Rightarrow> VectorXd \<Rightarrow> VectorXd \<Rightarrow> real"

text \<open>\<^verbatim>\<open>covf->get(x1, x2)\<close>.\<close>

definition covf_get :: "CovarianceFunction \<Rightarrow> VectorXd \<Rightarrow> VectorXd \<Rightarrow> real" where
  "covf_get cf x1 x2 = get cf (loghyper cf) x1 x2"

text \<open>Modelled from the spec: the body of \<^verbatim>\<open>get_param_dim\<close> is not among the sources;
  it reports the parameter-vector dimensionality.\<close>

definition get_param_dim :: "CovarianceFunction \<Rightarrow> nat" where
  "get_param_dim cf = param_dim cf"

text \<open>Modelled from the spec: the body of \<^verbatim>\<open>set_loghyper\<close> is not among the sources
  (cov.h declares it, returning true for success). It replaces the hyperparameter vector,
  fails when the length of the input is not \<open>param_dim\<close>, and never partially applies.\<close>

definition set_loghyper :: "CovarianceFunction \<Rightarrow> VectorXd \<Rightarrow> bool \<times> CovarianceFunction" where
  "set_loghyper cf p =
     (if length p \<noteq> param_dim cf then (False, cf) else (True, cf\<lparr>loghyper := p\<rparr>))"

subsection \<open>Training patterns\<close>

text \<open>
  Modelled from the spec: the class \<^verbatim>\<open>Pattern\<close> is not among the sources. A sample has
  an input vector of \<open>input_dim\<close> reals and a scalar target; \<^verbatim>\<open>set_input\<close> copies
  \<open>input_dim\<close> values from the array it is given. The members that gp.cc reads as
  \<^verbatim>\<open>sampleset[i]->x\<close> and \<^verbatim>\<open>sampleset[i]->y\<close> are the fields \<open>input\<close> and \<open>target\<close>.
\<close>

record Pattern =
  input :: VectorXd
  target :: real

text \<open>Modelled from the spec: \<^verbatim>\<open>new Pattern(input_dim)\<close>, a sample with room for
  \<open>input_dim\<close> values and nothing assigned yet.\<close>

definition Pattern_new :: "nat \<Rightarrow> Pattern" where
  "Pattern_new d = \<lparr> input = replicate d undefined, target = undefined \<rparr>"

text \<open>Modelled from the spec: \<^verbatim>\<open>set_input(x)\<close> copies as many values from the array as
  the sample has room for.\<close>

definition set_input :: "Pattern \<Rightarrow> real list \<Rightarrow> Pattern option" where
  "set_input p a = map_option (\<lambda>v. p\<lparr>input := v\<rparr>) (read_array a (length (input p)))"

text \<open>Modelled from the spec: \<^verbatim>\<open>set_target(y)\<close> stores the target.\<close>

definition set_target :: "Pattern \<Rightarrow> real \<Rightarrow> Pattern" where
  "set_target p t = p\<lparr>target := t\<rparr>"

subsection \<open>The engine (gp.cc)\<close>

text \<open>The declaration of the class (gp.h) is not among the sources; the members are the
  ones that gp.cc reads and writes.\<close>

record GaussianProcess =
  input_dim :: nat
  covf :: CovarianceFunction
  sampleset :: "Pattern list"
  update :: bool
  alpha :: VectorXd
  solver :: "LLT option"

text \<open>
  What a call of \<^verbatim>\<open>predict\<close> asks of the kernel and of the library, in the order of
  the calls: \<open>Kernel_gram j i\<close> is \<^verbatim>\<open>covf->get(sampleset[j]->x, sampleset[i]->x)\<close>,
  \<open>Kernel_star i\<close> is \<^verbatim>\<open>covf->get(x, sampleset[i]->x)\<close>, \<open>Kernel_self\<close> is
  \<^verbatim>\<open>covf->get(x, x)\<close> and \<open>Cholesky n\<close> is \<^verbatim>\<open>K.llt()\<close> on an \<open>n \<times> n\<close> matrix.
\<close>

datatype event = Kernel_gram nat nat | Kernel_star nat | Kernel_self | Cholesky nat

text \<open>
  \<^verbatim>\<open>GaussianProcess(size_t input_dim, std::string covf_def)\<close>. The constructor assigns
  \<open>input_dim\<close> and \<open>covf\<close> only. \<open>cf\<close> is the instance the factory returns for
  \<open>covf_def\<close>; \<open>u\<close> is the value the member \<open>update\<close>, which the constructor does not
  assign, happens to hold. The vector of samples and \<open>alpha\<close> start empty, the solver
  without a factorisation.
\<close>

definition GaussianProcess_new :: "bool \<Rightarrow> nat \<Rightarrow> CovarianceFunction \<Rightarrow> GaussianProcess" where
  "GaussianProcess_new u d cf =
     \<lparr> input_dim = d, covf = cf, sampleset = [], update = u, alpha = [], solver = None \<rparr>"

text \<open>\<^verbatim>\<open>add_pattern(const double x[], double y)\<close>.\<close>

definition add_pattern :: "GaussianProcess \<Rightarrow> real list \<Rightarrow> real \<Rightarrow> GaussianProcess option" where
  "add_pattern gp x y =
     (case set_input (Pattern_new (input_dim gp)) x of
        None \<Rightarrow> None
      | Some p \<Rightarrow>
          Some (gp\<lparr>sampleset := sampleset gp @ [set_target p y], update := True\<rparr>))"

definition get_sampleset_size :: "GaussianProcess \<Rightarrow> nat" where
  "get_sampleset_size gp = length (sampleset gp)"

text \<open>\<^verbatim>\<open>set_params(double p[])\<close>: the result of \<^verbatim>\<open>set_loghyper\<close> is not looked at.\<close>

definition set_params :: "GaussianProcess \<Rightarrow> real list \<Rightarrow> GaussianProcess option" where
  "set_params gp p =
     (case read_array p (get_param_dim (covf gp)) of
        None \<Rightarrow> None
      | Some param \<Rightarrow>
          Some (gp\<lparr>covf := snd (set_loghyper (covf gp) param), update := True\<rparr>))"

text \<open>\<^verbatim>\<open>clear_sampleset()\<close>: pops the last sample until none is left.\<close>

function clear_sampleset :: "GaussianProcess \<Rightarrow> GaussianProcess" where
  "clear_sampleset gp =
     (if sampleset gp \<noteq> [] then clear_sampleset (gp\<lparr>sampleset := butlast (sampleset gp)\<rparr>)
      else gp)"
  by pat_completeness auto
termination
  by (relation "measure (\<lambda>gp. length (sampleset gp))") auto

declare clear_sampleset.simps [simp del]

text \<open>The inner loop of the rebuild, \<^verbatim>\<open>for (j = i; j < sampleset.size(); ++j)\<close>,
  from the value \<open>j\<close> of its counter on.\<close>

function fill_column ::
  "CovarianceFunction \<Rightarrow> Pattern list \<Rightarrow> nat \<Rightarrow> nat \<Rightarrow> MatrixXd \<times> event list
     \<Rightarrow> MatrixXd \<times> event list" where
  "fill_column cf ss i j (K, tr) =
     (if j < length ss
      then fill_column cf ss i (Suc j)
             (coeff_set K j i (covf_get cf (input (ss ! j)) (input (ss ! i))),
              tr @ [Kernel_gram j i])
      else (K, tr))"
  by pat_completeness auto
termination
  by (relation "measure (\<lambda>(cf, ss, i, j, s). length ss - j)") auto

declare fill_column.simps [simp del]

text \<open>The outer loop, \<^verbatim>\<open>for (i = 0; i < sampleset.size(); ++i)\<close>, from the value \<open>i\<close>
  of its counter on.\<close>

function fill_rows ::
  "CovarianceFunction \<Rightarrow> Pattern list \<Rightarrow> nat \<Rightarrow> MatrixXd \<times> VectorXd \<times> event list
     \<Rightarrow> MatrixXd \<times> VectorXd \<times> event list" where
  "fill_rows cf ss i (K, a, tr) =
     (if i < length ss
      then (case fill_column cf ss i i (K, tr) of
              (K', tr') \<Rightarrow> fill_rows cf ss (Suc i) (K', a[i := target (ss ! i)], tr'))
      else (K, a, tr))"
  by pat_completeness auto
termination
  by (relation "measure (\<lambda>(cf, ss, i, s). length ss - i)") auto

declare fill_rows.simps [simp del]

text \<open>The body of \<^verbatim>\<open>if (update) { ... }\<close> in \<^verbatim>\<open>predict\<close>.\<close>

definition rebuild :: "GaussianProcess \<Rightarrow> (GaussianProcess \<times> event list) option" where
  "rebuild gp =
     (let gp0 = gp\<lparr>update := False\<rparr>;
          n = length (sampleset gp0)
      in case fill_rows (covf gp0) (sampleset gp0) 0 (MatrixXd_new, resize n (alpha gp0), []) of
           (K, a, tr) \<Rightarrow>
             let s = llt n K
             in map_option (\<lambda>a'. (gp0\<lparr>alpha := a', solver := Some s\<rparr>, tr @ [Cholesky n]))
                  (solveInPlace s a))"

text \<open>\<^verbatim>\<open>predict(const double x[], double &var, bool compute_variance)\<close>. The result is
  the returned mean, the content of \<open>var\<close> after the call, the engine after the call and
  the calls made.\<close>

definition predict ::
  "GaussianProcess \<Rightarrow> real list \<Rightarrow> real \<Rightarrow> bool
     \<Rightarrow> (real \<times> real \<times> GaussianProcess \<times> event list) option" where
  "predict gp x var compute_variance =
     (if length (sampleset gp) = 0 then Some (0, var, gp, [])
      else
        case (if update gp then rebuild gp else Some (gp, [])) of
          None \<Rightarrow> None
        | Some (gp1, tr1) \<Rightarrow>
            (case read_array x (input_dim gp1) of
               None \<Rightarrow> None
             | Some x_vec_map \<Rightarrow>
                 let kstar = map (\<lambda>p. covf_get (covf gp1) x_vec_map (input p)) (sampleset gp1);
                     tr2 = tr1 @ map Kernel_star [0..<length (sampleset gp1)]
                 in (case dot kstar (alpha gp1) of
                       None \<Rightarrow> None
                     | Some fstar \<Rightarrow>
                         (if compute_variance then
                            (case solver gp1 of
                               None \<Rightarrow> None
                             | Some s \<Rightarrow>
                                 (case matrixL_solve s kstar of
                                    None \<Rightarrow> None
                                  | Some v \<Rightarrow>
                                      (case dot v v of
                                         None \<Rightarrow> None
                                       | Some vv \<Rightarrow>
                                           Some (fstar,
                                                 covf_get (covf gp1) x_vec_map x_vec_map - vv,
                                                 gp1, tr2 @ [Kernel_self]))))
                          else Some (fstar, var, gp1, tr2)))))"

text \<open>\<^verbatim>\<open>predict(const double x[], double &var)\<close>.\<close>

definition predict_var ::
  "GaussianProcess \<Rightarrow> real list \<Rightarrow> real
     \<Rightarrow> (real \<times> real \<times> GaussianProcess \<times> event list) option" where
  "predict_var gp x var = predict gp x var True"

text \<open>\<^verbatim>\<open>predict(const double x[])\<close>: \<open>var\<close> is a local variable without an initial
  value, and is dropped on return.\<close>

definition predict_mean ::
  "GaussianProcess \<Rightarrow> real list \<Rightarrow> (real \<times> GaussianProcess \<times> event list) option" where
  "predict_mean gp x =
     map_option (\<lambda>(fstar, var, gp', tr). (fstar, gp', tr)) (predict gp x undefined False)"

text \<open>The member functions that change or use the engine, as values, and a sequence of
  calls run from left to right; a call without defined behaviour ends the run.\<close>

datatype operation =
    Add_pattern "real list" real
  | Set_params "real list"
  | Predict "real list" real bool
  | Clear_sampleset

fun exec :: "GaussianProcess \<Rightarrow> operation \<Rightarrow> GaussianProcess option" where
  "exec gp (Add_pattern x y) = add_pattern gp x y"
| "exec gp (Set_params p) = set_params gp p"
| "exec gp (Predict x var cv) = map_option (fst \<circ> snd \<circ> snd) (predict gp x var cv)"
| "exec gp Clear_sampleset = Some (clear_sampleset gp)"

fun run :: "GaussianProcess \<Rightarrow> operation list \<Rightarrow> GaussianProcess option" where
  "run gp [] = Some gp"
| "run gp (c # cs) = (case exec gp c of None \<Rightarrow> None | Some gp' \<Rightarrow> run gp' cs)"

text \<open>
  \<^verbatim>\<open>GaussianProcess(const char * filename)\<close>, after the parsing: \<open>d\<close> is the number on
  the first content line, \<open>cf\<close> the instance the factory returns for the second,
  \<open>params\<close> the array filled from the third and \<open>rows\<close> the target and the array filled
  from each further line. The constructor calls \<^verbatim>\<open>set_params\<close>, then \<^verbatim>\<open>add_pattern\<close>
  for each row, and ends with \<^verbatim>\<open>update = 1\<close>. Reading the file, and the exit of the
  process on a file with fewer than three content lines, are not part of the model.
\<close>

definition GaussianProcess_load ::
  "bool \<Rightarrow> nat \<Rightarrow> CovarianceFunction \<Rightarrow> real list \<Rightarrow> (real \<times> real list) list
     \<Rightarrow> GaussianProcess option" where
  "GaussianProcess_load u d cf params rows =
     map_option (\<lambda>gp. gp\<lparr>update := True\<rparr>)
       (run (GaussianProcess_new u d cf)
          (Set_params params # map (\<lambda>(y, x). Add_pattern x y) rows))"

text \<open>The engines a program can hold: built by a constructor, then used through the
  member functions.\<close>

inductive reachable :: "GaussianProcess \<Rightarrow> bool" where
  new: "reachable (GaussianProcess_new u d cf)"
| load: "GaussianProcess_load u d cf params rows = Some gp \<Longrightarrow> reachable gp"
| step: "reachable gp \<Longrightarrow> exec gp c = Some gp' \<Longrightarrow> reachable gp'"

subsection \<open>The notions of the specification\<close>

text \<open>The Gram matrix of the samples as the rebuild stores it: the kernel of samples
  \<open>r\<close> and \<open>c\<close> in the lower triangle, nothing above the diagonal.\<close>

definition Gram :: "CovarianceFunction \<Rightarrow> Pattern list \<Rightarrow> MatrixXd" where
  "Gram cf ss =
     (\<lambda>r c. if c \<le> r \<and> r < length ss
             then covf_get cf (input (ss ! r)) (input (ss ! c)) else undefined)"

text \<open>The symmetric matrix that a lower triangle stands for.\<close>

definition selfadjoint_lower :: "MatrixXd \<Rightarrow> MatrixXd" where
  "selfadjoint_lower K = (\<lambda>i j. K (max i j) (min i j))"

definition positive_definite :: "nat \<Rightarrow> MatrixXd \<Rightarrow> bool" where
  "positive_definite n K \<longleftrightarrow>
     (\<forall>v. (\<exists>i<n. v i \<noteq> 0) \<longrightarrow> 0 < (\<Sum>i<n. \<Sum>j<n. v i * K i j * v j))"

text \<open>The cross-covariances \<open>kstar[i] = get(x, sample_i)\<close> of a query with the samples,
  in insertion order.\<close>

definition kstar_of :: "GaussianProcess \<Rightarrow> real list \<Rightarrow> VectorXd" where
  "kstar_of gp x =
     map (\<lambda>p. covf_get (covf gp) (take (input_dim gp) x) (input p)) (sampleset gp)"

text \<open>The calls of the kernel on two samples in a trace, as pairs of the indices of the
  first and of the second sample.\<close>

fun gram_calls :: "event list \<Rightarrow> (nat \<times> nat) list" where
  "gram_calls [] = []"
| "gram_calls (Kernel_gram r c # es) = (r, c) # gram_calls es"
| "gram_calls (e # es) = gram_calls es"

text \<open>The pairs of the lower triangle of an \<open>n \<times> n\<close> matrix, column by column.\<close>

definition lower_triangle :: "nat \<Rightarrow> (nat \<times> nat) list" where
  "lower_triangle n = concat (map (\<lambda>c. map (\<lambda>r. (r, c)) [c..<n]) [0..<n])"

text \<open>A clean cache holds the factorisation and the solution for the samples and the
  hyperparameters the engine has now.\<close>

definition cache_ok :: "GaussianProcess \<Rightarrow> bool" where
  "cache_ok gp \<longleftrightarrow>
     (sampleset gp \<noteq> [] \<and> \<not> update gp \<longrightarrow>
        solver gp = Some (llt (length (sampleset gp)) (Gram (covf gp) (sampleset gp))) \<and>
        solveInPlace (llt (length (sampleset gp)) (Gram (covf gp) (sampleset gp)))
          (map target (sampleset gp)) = Some (alpha gp))"

text \<open>The number of \<^verbatim>\<open>add_pattern\<close> calls in a sequence of calls.\<close>

fun adds :: "operation list \<Rightarrow> nat" where
  "adds [] = 0"
| "adds (Add_pattern x y # cs) = Suc (adds cs)"
| "adds (c # cs) = adds cs"

subsection \<open>A concrete kernel and concrete engines\<close>

text \<open>A kernel with one hyperparameter \<open>h\<close>: \<open>h - (a - b)\<^sup>2\<close> on inputs of dimension one.\<close>

definition cov_parabola :: "real \<Rightarrow> CovarianceFunction" where
  "cov_parabola h =
     \<lparr> cov_input_dim = 1, param_dim = 1, loghyper = [h],
       get = (\<lambda>l a b. sum_list l - (sum_list a - sum_list b)\<^sup>2) \<rparr>"

text \<open>An engine with one sample, input 0 and target 3, after \<^verbatim>\<open>add_pattern\<close>.\<close>

definition gp_one :: "real \<Rightarrow> GaussianProcess" where
  "gp_one h =
     \<lparr> input_dim = 1, covf = cov_parabola h,
       sampleset = [\<lparr> input = [0], target = 3 \<rparr>],
       update = True, alpha = [], solver = None \<rparr>"

text \<open>The engine right after the constructor, and one with two samples.\<close>

definition gp_none :: GaussianProcess where
  "gp_none = GaussianProcess_new False 1 (cov_parabola 1)"

definition gp_two :: GaussianProcess where
  "gp_two =
     \<lparr> input_dim = 1, covf = cov_parabola 1,
       sampleset = [\<lparr> input = [0], target = 3 \<rparr>, \<lparr> input = [1], target = 5 \<rparr>],
       update = True, alpha = [], solver = None \<rparr>"

section \<open>Properties\<close>

subsection \<open>The two nested iterations of the rebuild\<close>

lemma fill_column_eq:
  "fill_column cf ss i j (K, tr) =
     ((\<lambda>r c. if c = i \<and> j \<le> r \<and> r < length ss
              then covf_get cf (input (ss ! r)) (input (ss ! i)) else K r c),
      tr @ map (\<lambda>r. Kernel_gram r i) [j..<length ss])"
proof (induction cf ss i j "(K, tr)" arbitrary: K tr rule: fill_column.induct)
  case (1 cf ss i j K tr)
  show ?case
  proof (cases "j < length ss")
    case True
    have "fill_column cf ss i j (K, tr) = fill_column cf ss i (Suc j)
             (coeff_set K j i (covf_get cf (input (ss ! j)) (input (ss ! i))),
              tr @ [Kernel_gram j i])"
      using True by (simp add: fill_column.simps[of cf ss i j])
    also have "\<dots> = ((\<lambda>r c. if c = i \<and> Suc j \<le> r \<and> r < length ss
              then covf_get cf (input (ss ! r)) (input (ss ! i)) else coeff_set K j i (covf_get cf (input (ss ! j)) (input (ss ! i))) r c),
      (tr @ [Kernel_gram j i]) @ map (\<lambda>r. Kernel_gram r i) [Suc j..<length ss])"
      using 1[OF True] .
    also have "\<dots> = ((\<lambda>r c. if c = i \<and> j \<le> r \<and> r < length ss
              then covf_get cf (input (ss ! r)) (input (ss ! i)) else K r c),
      tr @ map (\<lambda>r. Kernel_gram r i) [j..<length ss])"
      using True by (auto simp: coeff_set_def fun_eq_iff upt_conv_Cons)
    finally show ?thesis .
  next
    case False
    then show ?thesis by (auto simp: fill_column.simps[of cf ss i j] fun_eq_iff)
  qed
qed


lemma fill_rows_eq:
  "length a = length ss \<Longrightarrow> fill_rows cf ss i (K, a, tr) =
     ((\<lambda>r c. if i \<le> c \<and> c \<le> r \<and> r < length ss
              then covf_get cf (input (ss ! r)) (input (ss ! c)) else K r c),
      take i a @ map target (drop i ss),
      tr @ concat (map (\<lambda>c. map (\<lambda>r. Kernel_gram r c) [c..<length ss]) [i..<length ss]))"
proof (induction cf ss i "(K, a, tr)" arbitrary: K a tr rule: fill_rows.induct)
  case (1 cf ss i K a tr)
  show ?case
  proof (cases "i < length ss")
    case True
    let ?K' = "\<lambda>r c. if c = i \<and> i \<le> r \<and> r < length ss
              then covf_get cf (input (ss ! r)) (input (ss ! i)) else K r c"
    let ?tr' = "tr @ map (\<lambda>r. Kernel_gram r i) [i..<length ss]"
    have fc: "fill_column cf ss i i (K, tr) = (?K', ?tr')"
      by (rule fill_column_eq)
    have len: "length (a[i := target (ss ! i)]) = length ss"
      using 1(2) by simp
    have "fill_rows cf ss i (K, a, tr) = fill_rows cf ss (Suc i) (?K', a[i := target (ss ! i)], ?tr')"
      using True by (simp add: fill_rows.simps[of cf ss i] fc)
    also have "\<dots> = ((\<lambda>r c. if Suc i \<le> c \<and> c \<le> r \<and> r < length ss
              then covf_get cf (input (ss ! r)) (input (ss ! c)) else ?K' r c),
      take (Suc i) (a[i := target (ss ! i)]) @ map target (drop (Suc i) ss),
      ?tr' @ concat (map (\<lambda>c. map (\<lambda>r. Kernel_gram r c) [c..<length ss]) [Suc i..<length ss]))"
      using 1(1)[OF True fc[symmetric] len] .
    also have "\<dots> = ((\<lambda>r c. if i \<le> c \<and> c \<le> r \<and> r < length ss
              then covf_get cf (input (ss ! r)) (input (ss ! c)) else K r c),
      take i a @ map target (drop i ss),
      tr @ concat (map (\<lambda>c. map (\<lambda>r. Kernel_gram r c) [c..<length ss]) [i..<length ss]))"
    proof -
      have a: "(\<lambda>r c. if Suc i \<le> c \<and> c \<le> r \<and> r < length ss
              then covf_get cf (input (ss ! r)) (input (ss ! c)) else ?K' r c) = 
             (\<lambda>r c. if i \<le> c \<and> c \<le> r \<and> r < length ss
              then covf_get cf (input (ss ! r)) (input (ss ! c)) else K r c)"
        by (auto simp: fun_eq_iff)
      have b: "take (Suc i) (a[i := target (ss ! i)]) @ map target (drop (Suc i) ss) = take i a @ map target (drop i ss)"
        using True 1(2) by (simp add: take_Suc_conv_app_nth Cons_nth_drop_Suc[symmetric])
      have c: "?tr' @ concat (map (\<lambda>c. map (\<lambda>r. Kernel_gram r c) [c..<length ss]) [Suc i..<length ss])
         = tr @ concat (map (\<lambda>c. map (\<lambda>r. Kernel_gram r c) [c..<length ss]) [i..<length ss])"
        using True by (simp add: upt_conv_Cons[of i "length ss"])
      show ?thesis by (simp only: a b c)
    qed
    finally show ?thesis .
  next
    case False
    then show ?thesis using 1(2) by (auto simp: fill_rows.simps[of cf ss i] fun_eq_iff)
  qed
qed

subsection \<open>Factorisation and substitution in exact arithmetic\<close>

lemma chol_upper: "i < j \<Longrightarrow> chol K i j = 0"
  by (simp add: chol.simps[of K i j])

lemma chol_diag: "chol K j j = sqrt (pivot K j)"
  by (simp add: chol.simps[of K j j] pivot_def)

lemma chol_lower:
  "j < i \<Longrightarrow> chol K i j = (K i j - (\<Sum>k<j. chol K i k * chol K j k)) / chol K j j"
  by (subst chol.simps) simp

lemma chol_diag_pos: "0 < pivot K j \<Longrightarrow> 0 < chol K j j"
  by (simp add: chol_diag)

lemma chol_mult_lower:
  assumes "0 < pivot K j" and "j \<le> i"
  shows "(\<Sum>k\<le>j. chol K i k * chol K j k) = K i j"
proof (cases "i = j")
  case True
  have "(\<Sum>k\<le>j. chol K j k * chol K j k) = (\<Sum>k<j. (chol K j k)\<^sup>2) + (sqrt (pivot K j))\<^sup>2"
    by (simp add: lessThan_Suc_atMost[symmetric] chol_diag power2_eq_square)
  also have "\<dots> = K j j" using assms(1) by (simp add: pivot_def)
  finally show ?thesis using True by simp
next
  case False
  then have lt: "j < i" using assms(2) by simp
  have nz: "chol K j j \<noteq> 0" using chol_diag_pos[OF assms(1)] by simp
  have "(\<Sum>k\<le>j. chol K i k * chol K j k) = (\<Sum>k<j. chol K i k * chol K j k) + chol K i j * chol K j j"
    by (simp add: lessThan_Suc_atMost[symmetric])
  also have "\<dots> = K i j"
    using nz by (simp add: chol_lower[OF lt])
  finally show ?thesis .
qed

lemma chol_mult:
  assumes pos: "\<forall>j<n. 0 < pivot K j" and "i < n" "j < n"
  shows "(\<Sum>k<n. chol K i k * chol K j k) = selfadjoint_lower K i j"
proof -
  let ?m = "min i j" let ?M = "max i j"
  have m: "?m < n" "?m \<le> ?M" using assms by auto
  have "(\<Sum>k<n. chol K i k * chol K j k) = (\<Sum>k<n. chol K ?M k * chol K ?m k)"
  proof (cases "i \<le> j")
    case True
    then have "max i j = j" "min i j = i" by simp_all
    then show ?thesis by (simp add: mult.commute)
  next
    case False
    then have "max i j = i" "min i j = j" by simp_all
    then show ?thesis by simp
  qed
  also have "\<dots> = (\<Sum>k\<in>{..?m}. chol K ?M k * chol K ?m k)"
    by (rule sum.mono_neutral_right) (use m in \<open>auto simp: chol_upper\<close>)
  also have "\<dots> = K ?M ?m"
    using chol_mult_lower[of K ?m ?M] pos m by simp
  finally show ?thesis by (simp add: selfadjoint_lower_def)
qed

lemma forward_subst_solves:
  assumes "L i i \<noteq> 0"
  shows "(\<Sum>k\<le>i. L i k * forward_subst L b k) = b i"
proof -
  have "(\<Sum>k\<le>i. L i k * forward_subst L b k) =
        (\<Sum>k<i. L i k * forward_subst L b k) + L i i * forward_subst L b i"
    by (simp add: lessThan_Suc_atMost[symmetric])
  also have "\<dots> = b i"
    using assms by (subst (2) forward_subst.simps) simp
  finally show ?thesis .
qed

lemma backward_subst_solves:
  assumes "L i i \<noteq> 0" "i < n"
  shows "(\<Sum>k\<in>{i..<n}. L k i * backward_subst L n v k) = v i"
proof -
  have s: "{i..<n} = insert i {i<..<n}" using assms(2) by auto
  have "(\<Sum>k\<in>{i..<n}. L k i * backward_subst L n v k) =
        L i i * backward_subst L n v i + (\<Sum>k\<in>{i<..<n}. L k i * backward_subst L n v k)"
    by (simp add: s)
  also have "\<dots> = v i"
    using assms(1) by (subst backward_subst.simps) simp
  finally show ?thesis .
qed

lemma llt_solve_solves:
  assumes pos: "\<forall>j<n. 0 < pivot K j" and i: "i < n"
  shows "(\<Sum>j<n. selfadjoint_lower K i j *
            backward_subst (chol K) n (forward_subst (chol K) b) j) = b i"
proof -
  define L where "L = chol K"
  define v where "v = forward_subst L b"
  define a where "a = backward_subst L n v"
  have nz: "\<And>j. j < n \<Longrightarrow> L j j \<noteq> 0"
    using pos chol_diag_pos[of K] by (fastforce simp: L_def)
  have "(\<Sum>j<n. selfadjoint_lower K i j * a j) = (\<Sum>j<n. (\<Sum>k<n. L i k * L j k) * a j)"
    by (rule sum.cong) (simp_all add: chol_mult[OF pos i] L_def)
  also have "\<dots> = (\<Sum>j<n. \<Sum>k<n. L i k * (L j k * a j))"
    by (simp add: sum_distrib_right mult.assoc)
  also have "\<dots> = (\<Sum>k<n. \<Sum>j<n. L i k * (L j k * a j))"
    by (rule sum.swap)
  also have "\<dots> = (\<Sum>k<n. L i k * (\<Sum>j<n. L j k * a j))"
    by (simp add: sum_distrib_left)
  also have "\<dots> = (\<Sum>k<n. L i k * v k)"
  proof (rule sum.cong[OF refl])
    fix k assume "k \<in> {..<n}"
    then have k: "k < n" by simp
    have "(\<Sum>j<n. L j k * a j) = (\<Sum>j\<in>{k..<n}. L j k * a j)"
      by (rule sum.mono_neutral_right) (auto simp: L_def chol_upper)
    also have "\<dots> = v k"
      unfolding a_def using backward_subst_solves[of L k n v] nz[OF k] k by simp
    finally show "L i k * (\<Sum>j<n. L j k * a j) = L i k * v k" by simp
  qed
  also have "\<dots> = (\<Sum>k\<le>i. L i k * v k)"
    by (rule sum.mono_neutral_right) (use i in \<open>auto simp: L_def chol_upper\<close>)
  also have "\<dots> = b i"
    unfolding v_def using forward_subst_solves[of L i b] nz[OF i] by simp
  finally show ?thesis by (simp add: a_def v_def L_def)
qed

subsection \<open>The rebuild as a whole\<close>

lemma gram_trace_eq:
  "concat (map (\<lambda>c. map (\<lambda>r. Kernel_gram r c) [c..<n]) [0..<n]) =
   map (\<lambda>(r, c). Kernel_gram r c) (lower_triangle n)"
  by (simp add: lower_triangle_def map_concat comp_def)

lemma length_resize: "length (resize n v) = n"
  by (simp add: resize_def)

lemma fill_rows_new:
  "fill_rows cf ss 0 (MatrixXd_new, resize (length ss) a, []) =
     (Gram cf ss, map target ss, map (\<lambda>(r, c). Kernel_gram r c) (lower_triangle (length ss)))"
  by (simp add: fill_rows_eq length_resize Gram_def MatrixXd_new_def gram_trace_eq)

lemma solveInPlace_Some:
  "length b = llt_size s \<Longrightarrow> \<exists>a. solveInPlace s b = Some a \<and> length a = llt_size s"
  by (simp add: solveInPlace_def)

lemma rebuild_eq:
  "\<exists>a. solveInPlace (llt (length (sampleset gp)) (Gram (covf gp) (sampleset gp)))
          (map target (sampleset gp)) = Some a \<and> length a = length (sampleset gp) \<and>
       rebuild gp =
         Some (gp\<lparr>update := False, alpha := a,
                  solver := Some (llt (length (sampleset gp)) (Gram (covf gp) (sampleset gp)))\<rparr>,
               map (\<lambda>(r, c). Kernel_gram r c) (lower_triangle (length (sampleset gp)))
                 @ [Cholesky (length (sampleset gp))])"
proof -
  let ?n = "length (sampleset gp)"
  let ?s = "llt ?n (Gram (covf gp) (sampleset gp))"
  have "length (map target (sampleset gp)) = llt_size ?s" by (simp add: llt_def)
  from solveInPlace_Some[OF this] obtain a where
    a: "solveInPlace ?s (map target (sampleset gp)) = Some a" "length a = ?n"
    by (auto simp: llt_def)
  show ?thesis
    using a by (simp add: rebuild_def fill_rows_new Let_def)
qed

lemma gram_calls_append: "gram_calls (xs @ ys) = gram_calls xs @ gram_calls ys"
  by (induction xs rule: gram_calls.induct) simp_all

lemma gram_calls_gram: "gram_calls (map (\<lambda>(r, c). Kernel_gram r c) ps) = ps"
  by (induction ps) auto

lemma gram_calls_star: "gram_calls (map Kernel_star ks) = []"
  by (induction ks) auto

lemma double_sum_Suc: "2 * (\<Sum>c<n. Suc c) = n * (n + 1)"
  by (induction n) simp_all

lemma sum_diff_triangle: "(\<Sum>c<n. n - c) = n * (n + 1) div (2::nat)"
proof -
  have "(\<Sum>c<n. n - c) = (\<Sum>c<n. Suc (n - Suc c))"
    by (rule sum.cong) auto
  also have "\<dots> = (\<Sum>c<n. Suc c)"
    by (rule sum.nat_diff_reindex)
  also have "\<dots> = n * (n + 1) div 2"
    using double_sum_Suc[of n] by linarith
  finally show ?thesis .
qed

lemma length_lower_triangle: "length (lower_triangle n) = n * (n + 1) div 2"
proof -
  have "length (lower_triangle n) = (\<Sum>c\<leftarrow>[0..<n]. n - c)"
    by (simp add: lower_triangle_def length_concat comp_def)
  also have "\<dots> = (\<Sum>c<n. n - c)"
    by (simp add: interv_sum_list_conv_sum_set_nat atLeast0LessThan)
  finally show ?thesis by (simp add: sum_diff_triangle)
qed

lemma set_lower_triangle: "set (lower_triangle n) = {(r, c). c \<le> r \<and> r < n}"
  by (force simp: lower_triangle_def)

lemma distinct_lower_triangle: "distinct (lower_triangle n)"
  unfolding lower_triangle_def
proof (rule distinct_concat)
  show "distinct (map (\<lambda>c. map (\<lambda>r. (r, c)) [c..<n]) [0..<n])"
    by (auto simp: distinct_map inj_on_def upt_conv_Cons)
qed (auto simp: distinct_map inj_on_def)

subsection \<open>One call of predict\<close>

lemma predict_empty: "sampleset gp = [] \<Longrightarrow> predict gp x var cv = Some (0, var, gp, [])"
  by (simp add: predict_def)

lemma solveInPlace_length: "solveInPlace s b = Some a \<Longrightarrow> length a = llt_size s"
  by (auto simp: solveInPlace_def split: if_splits)

lemma cache_step:
  assumes "cache_ok gp" "sampleset gp \<noteq> []"
  defines "s \<equiv> llt (length (sampleset gp)) (Gram (covf gp) (sampleset gp))"
  shows "\<exists>a tr1.
           (if update gp then rebuild gp else Some (gp, [])) =
             Some (gp\<lparr>update := False, alpha := a, solver := Some s\<rparr>, tr1) \<and>
           solveInPlace s (map target (sampleset gp)) = Some a \<and>
           gram_calls tr1 = (if update gp then lower_triangle (length (sampleset gp)) else []) \<and>
           (tr1 = [] \<longleftrightarrow> \<not> update gp)"
proof (cases "update gp")
  case True
  from rebuild_eq[of gp] obtain a where
    a: "solveInPlace s (map target (sampleset gp)) = Some a"
    and r: "rebuild gp = Some (gp\<lparr>update := False, alpha := a, solver := Some s\<rparr>,
               map (\<lambda>(r, c). Kernel_gram r c) (lower_triangle (length (sampleset gp)))
                 @ [Cholesky (length (sampleset gp))])"
    unfolding s_def by blast
  show ?thesis
    using True a r by (simp add: gram_calls_append gram_calls_gram)
next
  case False
  with assms(1,2) have "solver gp = Some s" "solveInPlace s (map target (sampleset gp)) = Some (alpha gp)"
    by (simp_all add: cache_ok_def s_def)
  moreover from this(1) False have "gp\<lparr>update := False, alpha := alpha gp, solver := Some s\<rparr> = gp"
    by simp
  ultimately show ?thesis using False by simp
qed

lemma dot_Some: "length a = length b \<Longrightarrow> dot a b = Some (\<Sum>i<length a. a ! i * b ! i)"
  by (simp add: dot_def)

lemma predict_nonempty:
  assumes "cache_ok gp" "sampleset gp \<noteq> []" "input_dim gp \<le> length x"
  defines "n \<equiv> length (sampleset gp)"
  defines "s \<equiv> llt n (Gram (covf gp) (sampleset gp))"
  defines "xv \<equiv> take (input_dim gp) x"
  shows "\<exists>a tr1 fstar v vv.
           (if update gp then rebuild gp else Some (gp, [])) =
             Some (gp\<lparr>update := False, alpha := a, solver := Some s\<rparr>, tr1) \<and>
           solveInPlace s (map target (sampleset gp)) = Some a \<and>
           gram_calls tr1 = (if update gp then lower_triangle n else []) \<and>
           (tr1 = [] \<longleftrightarrow> \<not> update gp) \<and>
           dot (kstar_of gp x) a = Some fstar \<and>
           matrixL_solve s (kstar_of gp x) = Some v \<and>
           dot v v = Some vv \<and>
           predict gp x var cv =
             Some (fstar, if cv then covf_get (covf gp) xv xv - vv else var,
                   gp\<lparr>update := False, alpha := a, solver := Some s\<rparr>,
                   tr1 @ map Kernel_star [0..<n] @ (if cv then [Kernel_self] else []))"
proof -
  from cache_step[OF assms(1,2)] obtain a tr1 where
    st: "(if update gp then rebuild gp else Some (gp, [])) =
           Some (gp\<lparr>update := False, alpha := a, solver := Some s\<rparr>, tr1)"
    and a: "solveInPlace s (map target (sampleset gp)) = Some a"
    and c: "gram_calls tr1 = (if update gp then lower_triangle n else [])"
           "tr1 = [] \<longleftrightarrow> \<not> update gp"
    unfolding s_def n_def by blast
  have la: "length a = n"
    using solveInPlace_length[OF a] by (simp add: s_def llt_def)
  have lk: "length (kstar_of gp x) = n" by (simp add: kstar_of_def n_def)
  obtain fstar where fs: "dot (kstar_of gp x) a = Some fstar"
    using la lk by (simp add: dot_def)
  obtain v where v: "matrixL_solve s (kstar_of gp x) = Some v" "length v = n"
    using lk by (simp add: matrixL_solve_def s_def llt_def)
  obtain vv where vv: "dot v v = Some vv" by (simp add: dot_def)
  have ra: "read_array x (input_dim gp) = Some xv"
    using assms(3) by (simp add: read_array_def xv_def)
  have ks: "map (\<lambda>p. covf_get (covf gp) xv (input p)) (sampleset gp) = kstar_of gp x"
    by (simp add: kstar_of_def xv_def)
  have n0: "n \<noteq> 0" using assms(2) by (simp add: n_def)
  have "predict gp x var cv =
             Some (fstar, if cv then covf_get (covf gp) xv xv - vv else var,
                   gp\<lparr>update := False, alpha := a, solver := Some s\<rparr>,
                   tr1 @ map Kernel_star [0..<n] @ (if cv then [Kernel_self] else []))"
    unfolding predict_def using n0
    by (simp add: st ra ks fs v vv n_def[symmetric] Let_def)
  with st a c fs v vv show ?thesis by blast
qed

lemma predict_short_array:
  assumes "cache_ok gp" "sampleset gp \<noteq> []" "\<not> input_dim gp \<le> length x"
  shows "predict gp x var cv = None"
proof -
  from cache_step[OF assms(1,2)] obtain a tr1 where
    st: "(if update gp then rebuild gp else Some (gp, [])) =
           Some (gp\<lparr>update := False, alpha := a,
             solver := Some (llt (length (sampleset gp)) (Gram (covf gp) (sampleset gp)))\<rparr>, tr1)"
    by blast
  show ?thesis
    unfolding predict_def using assms(2,3) by (simp add: st read_array_def)
qed

subsection \<open>The cache invariant\<close>

lemma clear_sampleset_eq: "clear_sampleset gp = gp\<lparr>sampleset := []\<rparr>"
proof (induction gp rule: clear_sampleset.induct)
  case (1 gp)
  show ?case
  proof (cases "sampleset gp = []")
    case True
    then show ?thesis by (simp add: clear_sampleset.simps[of gp])
  next
    case False
    have "clear_sampleset gp = clear_sampleset (gp\<lparr>sampleset := butlast (sampleset gp)\<rparr>)"
      using False by (simp add: clear_sampleset.simps[of gp])
    also have "\<dots> = gp\<lparr>sampleset := []\<rparr>"
      using 1[OF False] by simp
    finally show ?thesis .
  qed
qed

lemma add_pattern_eq:
  "add_pattern gp x y =
     (if input_dim gp \<le> length x
      then Some (gp\<lparr>sampleset := sampleset gp @ [\<lparr> input = take (input_dim gp) x, target = y \<rparr>],
                    update := True\<rparr>)
      else None)"
  by (simp add: add_pattern_def set_input_def Pattern_new_def read_array_def set_target_def)

lemma set_params_eq:
  "set_params gp p =
     (if param_dim (covf gp) \<le> length p
      then Some (gp\<lparr>covf := (covf gp)\<lparr>loghyper := take (param_dim (covf gp)) p\<rparr>,
                    update := True\<rparr>)
      else None)"
  by (simp add: set_params_def read_array_def get_param_dim_def set_loghyper_def)

lemma cache_ok_dirty: "update gp \<Longrightarrow> cache_ok gp"
  by (simp add: cache_ok_def)

lemma cache_ok_empty: "sampleset gp = [] \<Longrightarrow> cache_ok gp"
  by (simp add: cache_ok_def)

lemma predict_cache_ok:
  assumes "cache_ok gp" "predict gp x var cv = Some (m, v, gp', tr)"
  shows "cache_ok gp'"
proof (cases "sampleset gp = []")
  case True
  then show ?thesis using assms by (simp add: predict_empty)
next
  case False
  have d: "input_dim gp \<le> length x"
    using predict_short_array[OF assms(1) False, of x var cv] assms(2) by auto
  from predict_nonempty[OF assms(1) False d, of var cv] assms(2)
  obtain a where g: "gp' = gp\<lparr>update := False, alpha := a,
      solver := Some (llt (length (sampleset gp)) (Gram (covf gp) (sampleset gp)))\<rparr>"
    and a: "solveInPlace (llt (length (sampleset gp)) (Gram (covf gp) (sampleset gp)))
              (map target (sampleset gp)) = Some a"
    by auto
  show ?thesis unfolding g using a by (simp add: cache_ok_def)
qed

lemma exec_cache_ok: "cache_ok gp \<Longrightarrow> exec gp c = Some gp' \<Longrightarrow> cache_ok gp'"
proof (cases c)
  case (Add_pattern x y)
  assume "exec gp c = Some gp'"
  then have "update gp'" using Add_pattern by (auto simp: add_pattern_eq split: if_splits)
  then show ?thesis by (rule cache_ok_dirty)
next
  case (Set_params p)
  assume "exec gp c = Some gp'"
  then have "update gp'" using Set_params by (auto simp: set_params_eq split: if_splits)
  then show ?thesis by (rule cache_ok_dirty)
next
  case (Predict x var cv)
  assume "cache_ok gp" "exec gp c = Some gp'"
  then show ?thesis using Predict by (auto dest: predict_cache_ok)
next
  case Clear_sampleset
  assume "exec gp c = Some gp'"
  then have "sampleset gp' = []" using Clear_sampleset by (auto simp: clear_sampleset_eq)
  then show ?thesis by (rule cache_ok_empty)
qed

lemma load_update: "GaussianProcess_load u d cf params rows = Some gp \<Longrightarrow> update gp"
  by (auto simp: GaussianProcess_load_def)

lemma reachable_cache_ok: "reachable gp \<Longrightarrow> cache_ok gp"
proof (induction rule: reachable.induct)
  case (new u d cf)
  show ?case by (simp add: cache_ok_empty GaussianProcess_new_def)
next
  case (load u d cf params rows gp)
  then show ?case by (simp add: cache_ok_dirty load_update)
next
  case (step gp c gp')
  then show ?case by (simp add: exec_cache_ok)
qed

subsection \<open>The concrete engines, and what a call leaves of the engine\<close>

lemma reachable_gp_none: "reachable gp_none"
  unfolding gp_none_def by (rule reachable.new)

lemma gp_one_add: "add_pattern (GaussianProcess_new False 1 (cov_parabola h)) [0] 3 = Some (gp_one h)"
  by (simp add: add_pattern_eq GaussianProcess_new_def gp_one_def)

lemma reachable_gp_one: "reachable (gp_one h)"
proof -
  have "reachable (GaussianProcess_new False 1 (cov_parabola h))"
    by (rule reachable.new)
  moreover have "exec (GaussianProcess_new False 1 (cov_parabola h)) (Add_pattern [0] 3) =
      Some (gp_one h)"
    using gp_one_add[of h] by simp
  ultimately show ?thesis by (rule reachable.step)
qed

lemma gp_two_add: "add_pattern (gp_one 1) [1] 5 = Some gp_two"
  by (simp add: add_pattern_eq gp_one_def gp_two_def)

lemma reachable_gp_two: "reachable gp_two"
proof -
  have "exec (gp_one 1) (Add_pattern [1] 5) = Some gp_two"
    by (simp add: gp_two_add)
  with reachable_gp_one show ?thesis by (rule reachable.step)
qed

lemma GaussianProcess_new_flag_unread:
  "add_pattern (GaussianProcess_new u d cf) x y = add_pattern (GaussianProcess_new u' d cf) x y"
  "set_params (GaussianProcess_new u d cf) p = set_params (GaussianProcess_new u' d cf) p"
  "predict (GaussianProcess_new u d cf) x var cv = Some (0, var, GaussianProcess_new u d cf, [])"
  by (simp_all add: add_pattern_eq set_params_eq predict_empty GaussianProcess_new_def)

lemma exec_update:
  "exec gp (Add_pattern x y) = Some gp' \<Longrightarrow> update gp'"
  "exec gp (Set_params p) = Some gp' \<Longrightarrow> update gp'"
  "exec gp Clear_sampleset = Some gp' \<Longrightarrow> update gp' = update gp"
  by (auto simp: add_pattern_eq set_params_eq clear_sampleset_eq split: if_splits)

lemma predict_Some_state:
  assumes "predict gp x var cv = Some (m, v, gp', tr)"
  shows "sampleset gp' = sampleset gp" "covf gp' = covf gp" "input_dim gp' = input_dim gp"
    and "update gp' \<longleftrightarrow> update gp \<and> sampleset gp = []"
    and "Cholesky (length (sampleset gp)) \<in> set tr \<longleftrightarrow> update gp \<and> sampleset gp \<noteq> []"
    and "update gp \<or> gp' = gp"
proof -
  from rebuild_eq[of gp] obtain a where
    r: "rebuild gp = Some (gp\<lparr>update := False, alpha := a,
          solver := Some (llt (length (sampleset gp)) (Gram (covf gp) (sampleset gp)))\<rparr>,
               map (\<lambda>(r, c). Kernel_gram r c) (lower_triangle (length (sampleset gp)))
                 @ [Cholesky (length (sampleset gp))])"
    by blast
  show "sampleset gp' = sampleset gp" "covf gp' = covf gp" "input_dim gp' = input_dim gp"
    "update gp' \<longleftrightarrow> update gp \<and> sampleset gp = []"
    "Cholesky (length (sampleset gp)) \<in> set tr \<longleftrightarrow> update gp \<and> sampleset gp \<noteq> []"
    "update gp \<or> gp' = gp"
    using assms unfolding predict_def
    by (auto simp: r Let_def split: if_splits option.splits)
qed

lemma exec_sampleset:
  assumes "exec gp c = Some gp'" "c \<noteq> Clear_sampleset"
  shows "\<exists>new. sampleset gp' = sampleset gp @ new \<and> length new = adds [c]"
proof (cases c)
  case (Add_pattern x y)
  then show ?thesis using assms(1) by (auto simp: add_pattern_eq split: if_splits)
next
  case (Set_params p)
  then show ?thesis using assms(1) by (auto simp: set_params_eq split: if_splits)
next
  case (Predict x var cv)
  then show ?thesis using assms(1) by (auto dest: predict_Some_state(1))
next
  case Clear_sampleset
  then show ?thesis using assms(2) by simp
qed

lemma adds_Cons: "adds (c # cs) = adds [c] + adds cs"
  by (cases c) simp_all

subsection \<open>A successful factorisation has a positive definite matrix\<close>

lemma info_llt: "info (llt n K) = Success \<longleftrightarrow> (\<forall>j<n. 0 < pivot K j)"
  by (auto simp: llt_def list_all_iff)

lemma quadratic_form_squares:
  assumes pos: "\<forall>j<n. 0 < pivot K j"
  shows "(\<Sum>i<n. \<Sum>j<n. v i * selfadjoint_lower K i j * v j) =
         (\<Sum>k<n. (\<Sum>i<n. chol K i k * v i)\<^sup>2)"
proof -
  let ?L = "chol K"
  have "(\<Sum>i<n. \<Sum>j<n. v i * selfadjoint_lower K i j * v j) =
        (\<Sum>i<n. \<Sum>j<n. v i * (\<Sum>k<n. ?L i k * ?L j k) * v j)"
    by (intro sum.cong refl) (simp add: chol_mult[OF pos])
  also have "\<dots> = (\<Sum>i<n. \<Sum>j<n. \<Sum>k<n. (?L i k * v i) * (?L j k * v j))"
    by (intro sum.cong refl) (simp add: sum_distrib_left sum_distrib_right mult_ac)
  also have "\<dots> = (\<Sum>i<n. \<Sum>k<n. \<Sum>j<n. (?L i k * v i) * (?L j k * v j))"
    by (intro sum.cong refl sum.swap)
  also have "\<dots> = (\<Sum>k<n. \<Sum>i<n. \<Sum>j<n. (?L i k * v i) * (?L j k * v j))"
    by (rule sum.swap)
  also have "\<dots> = (\<Sum>k<n. (\<Sum>i<n. ?L i k * v i) * (\<Sum>j<n. ?L j k * v j))"
    by (intro sum.cong refl) (simp add: sum_product)
  finally show ?thesis by (simp add: power2_eq_square)
qed

lemma llt_success_positive_definite:
  assumes pos: "\<forall>j<n. 0 < pivot K j"
  shows "positive_definite n (selfadjoint_lower K)"
  unfolding positive_definite_def
proof (intro allI impI)
  fix v :: "nat \<Rightarrow> real"
  assume "\<exists>i<n. v i \<noteq> 0"
  then have ne: "{i. i < n \<and> v i \<noteq> 0} \<noteq> {}" by auto
  have fin: "finite {i. i < n \<and> v i \<noteq> 0}" by simp
  define m where "m = Max {i. i < n \<and> v i \<noteq> 0}"
  have "m \<in> {i. i < n \<and> v i \<noteq> 0}" unfolding m_def by (rule Max_in[OF fin ne])
  then have m: "m < n" "v m \<noteq> 0" by auto
  have above: "v i = 0" if "m < i" "i < n" for i
  proof (rule ccontr)
    assume "v i \<noteq> 0"
    then have "i \<in> {i. i < n \<and> v i \<noteq> 0}" using that by simp
    then have "i \<le> m" unfolding m_def by (rule Max_ge[OF fin])
    with that show False by simp
  qed
  have zero: "chol K i m * v i = 0" if "i < n" "i \<noteq> m" for i
  proof (cases "i < m")
    case True
    then show ?thesis by (simp add: chol_upper)
  next
    case False
    with that have "m < i" by simp
    then show ?thesis using above that by simp
  qed
  have "(\<Sum>i<n. chol K i m * v i) = (\<Sum>i\<in>{m}. chol K i m * v i)"
    by (rule sum.mono_neutral_right) (use m zero in auto)
  then have w: "(\<Sum>i<n. chol K i m * v i) \<noteq> 0"
    using chol_diag_pos[of K m] pos m by simp
  have "0 < (\<Sum>k<n. (\<Sum>i<n. chol K i k * v i)\<^sup>2)"
    by (rule sum_pos2[of _ m]) (use m w in auto)
  then show "0 < (\<Sum>i<n. \<Sum>j<n. v i * selfadjoint_lower K i j * v j)"
    by (simp add: quadratic_form_squares[OF pos])
qed

subsection \<open>The factorisation and the solves on one and two samples\<close>

lemma chol_00: "chol K 0 0 = sqrt (K 0 0)"
  by (simp add: chol.simps[of K 0 0])

lemma chol_10: "chol K (Suc 0) 0 = K (Suc 0) 0 / sqrt (K 0 0)"
  by (simp add: chol.simps[of K "Suc 0" 0] chol_00)

lemma chol_11: "chol K (Suc 0) (Suc 0) = sqrt (K (Suc 0) (Suc 0) - (K (Suc 0) 0 / sqrt (K 0 0))\<^sup>2)"
  by (simp add: chol.simps[of K "Suc 0" "Suc 0"] chol_10)

lemma pivot_0: "pivot K 0 = K 0 0"
  by (simp add: pivot_def)

lemma pivot_1: "pivot K (Suc 0) = K (Suc 0) (Suc 0) - (K (Suc 0) 0 / sqrt (K 0 0))\<^sup>2"
  by (simp add: pivot_def chol_10)

lemma forward_subst_0: "forward_subst L b 0 = b 0 / L 0 0"
  by (simp add: forward_subst.simps[of L b 0])

lemma forward_subst_1:
  "forward_subst L b (Suc 0) = (b (Suc 0) - L (Suc 0) 0 * (b 0 / L 0 0)) / L (Suc 0) (Suc 0)"
  by (simp add: forward_subst.simps[of L b "Suc 0"] forward_subst_0)

lemma backward_subst_last: "backward_subst L (Suc i) v i = v i / L i i"
proof -
  have "{i<..<Suc i} = {}" by auto
  then show ?thesis by (simp add: backward_subst.simps[of L "Suc i" v i])
qed

lemma backward_subst_2_0:
  "backward_subst L (Suc (Suc 0)) v 0 = (v 0 - L (Suc 0) 0 * (v (Suc 0) / L (Suc 0) (Suc 0))) / L 0 0"
proof -
  have "{0<..<Suc (Suc 0)} = {Suc 0}" by auto
  then show ?thesis
    by (simp add: backward_subst.simps[of L "Suc (Suc 0)" v 0] backward_subst_last)
qed

lemma Gram_one: "Gram (cov_parabola h) [\<lparr> input = [0], target = 3 \<rparr>] 0 0 = h"
  by (simp add: Gram_def covf_get_def cov_parabola_def)

lemma info_one: "info (llt (Suc 0) (Gram (cov_parabola h) [\<lparr> input = [0], target = 3 \<rparr>])) =
   (if 0 < h then Success else NumericalIssue)"
  by (simp add: llt_def pivot_0 Gram_one)

lemma solveInPlace_one:
  "solveInPlace (llt (Suc 0) (Gram (cov_parabola 1) [\<lparr> input = [0], target = 3 \<rparr>])) [3] = Some [3]"
  by (simp add: solveInPlace_def llt_def backward_subst_last forward_subst_0 chol_00 Gram_one)

lemma kstar_one: "kstar_of (gp_one h) [2] = [h - 4]"
  by (simp add: kstar_of_def gp_one_def covf_get_def cov_parabola_def)

lemma matrixL_solve_one:
  "matrixL_solve (llt (Suc 0) (Gram (cov_parabola 1) [\<lparr> input = [0], target = 3 \<rparr>])) [b] = Some [b]"
  by (simp add: matrixL_solve_def llt_def forward_subst_0 chol_00 Gram_one)

lemma Gram_two:
  "Gram (covf gp_two) (sampleset gp_two) 0 0 = 1"
  "Gram (covf gp_two) (sampleset gp_two) (Suc 0) 0 = 0"
  "Gram (covf gp_two) (sampleset gp_two) (Suc 0) (Suc 0) = 1"
  by (simp_all add: Gram_def covf_get_def cov_parabola_def gp_two_def)

lemma info_two: "info (llt 2 (Gram (covf gp_two) (sampleset gp_two))) = Success"
  by (simp add: llt_def numeral_2_eq_2 pivot_0 pivot_1 Gram_two)

lemma solveInPlace_two:
  "solveInPlace (llt 2 (Gram (covf gp_two) (sampleset gp_two))) [3, 5] = Some [3, 5]"
  by (simp add: solveInPlace_def llt_def numeral_2_eq_2 backward_subst_last backward_subst_2_0
        forward_subst_0 forward_subst_1 chol_00 chol_10 chol_11 Gram_two)

lemma kstar_two: "kstar_of gp_two [1] = [0, 1]"
  by (simp add: kstar_of_def gp_two_def covf_get_def cov_parabola_def)

subsection \<open>Prediction on a stale cache, and without the variance\<close>

lemma not_positive_definite_gp_one_0:
  "\<not> positive_definite 1 (selfadjoint_lower (Gram (covf (gp_one 0)) (sampleset (gp_one 0))))"
proof
  assume "positive_definite 1 (selfadjoint_lower (Gram (covf (gp_one 0)) (sampleset (gp_one 0))))"
  then have "0 < (\<Sum>i<1. \<Sum>j<1. (1::real) *
      selfadjoint_lower (Gram (covf (gp_one 0)) (sampleset (gp_one 0))) i j * 1)"
    unfolding positive_definite_def by (elim allE[of _ "\<lambda>i. 1"]) simp
  then show False
    by (simp add: selfadjoint_lower_def gp_one_def Gram_one)
qed

lemma predict_rebuilds_clean:
  assumes "sampleset gp \<noteq> []" "update gp" "input_dim gp \<le> length x"
  shows "\<exists>fstar var' a tr.
           predict gp x var cv =
             Some (fstar, var',
                   gp\<lparr>update := False, alpha := a,
                      solver := Some (llt (length (sampleset gp)) (Gram (covf gp) (sampleset gp)))\<rparr>,
                   tr)"
  using predict_nonempty[OF cache_ok_dirty[OF assms(2)] assms(1,3), of var cv] by blast

lemma predict_var_frame:
  "predict gp x var False =
     map_option (\<lambda>(f, w, g, t). (f, var, g, t)) (predict gp x var0 False)"
  by (auto simp: predict_def Let_def split: option.splits)

lemma predict_no_self:
  assumes "predict gp x var False = Some (m, v, gp', tr)"
  shows "Kernel_self \<notin> set tr"
proof -
  from rebuild_eq[of gp] obtain a where
    r: "rebuild gp = Some (gp\<lparr>update := False, alpha := a,
          solver := Some (llt (length (sampleset gp)) (Gram (covf gp) (sampleset gp)))\<rparr>,
               map (\<lambda>(r, c). Kernel_gram r c) (lower_triangle (length (sampleset gp)))
                 @ [Cholesky (length (sampleset gp))])"
    by blast
  show ?thesis
    using assms unfolding predict_def
    by (auto simp: r Let_def split: if_splits option.splits)
qed

section \<open>The claims\<close>

subsection \<open>C1: the mean\<close>

text \<open>
  C1. On every engine with at least one sample, and a query array of at least
  \<open>input_dim\<close> values, \<^verbatim>\<open>predict\<close>, in each of its three forms, returns the dot
  product of \<open>kstar\<close> and \<open>alpha\<close>, where \<open>kstar\<close> holds the kernel of the query and each
  sample in insertion order, and \<open>alpha\<close>, the vector the engine holds after the call, is
  what forward and backward substitution against the Cholesky factor of the Gram matrix
  give for the targets. Whenever the factorisation succeeds, \<open>alpha\<close> solves
  \<open>K alpha = y\<close> for the symmetric Gram matrix \<open>K\<close>.
\<close>

theorem predict_mean_kstar_dot_alpha:
  assumes "reachable gp" "sampleset gp \<noteq> []" "input_dim gp \<le> length x"
  shows "\<exists>fstar var' gp' tr.
           predict gp x var cv = Some (fstar, var', gp', tr) \<and>
           map_option fst (predict_var gp x var) = Some fstar \<and>
           map_option fst (predict_mean gp x) = Some fstar \<and>
           dot (kstar_of gp x) (alpha gp') = Some fstar \<and>
           solveInPlace (llt (length (sampleset gp)) (Gram (covf gp) (sampleset gp)))
             (map target (sampleset gp)) = Some (alpha gp') \<and>
           (info (llt (length (sampleset gp)) (Gram (covf gp) (sampleset gp))) = Success \<longrightarrow>
              (\<forall>i<length (sampleset gp).
                 (\<Sum>j<length (sampleset gp).
                    selfadjoint_lower (Gram (covf gp) (sampleset gp)) i j * alpha gp' ! j) =
                 target (sampleset gp ! i)))"
proof -
  let ?n = "length (sampleset gp)"
  let ?K = "Gram (covf gp) (sampleset gp)"
  have ok: "cache_ok gp" using assms(1) by (rule reachable_cache_ok)
  from predict_nonempty[OF ok assms(2,3), of var cv]
  obtain a tr fstar var' where
    a: "solveInPlace (llt ?n ?K) (map target (sampleset gp)) = Some a"
    and f: "dot (kstar_of gp x) a = Some fstar"
    and p: "predict gp x var cv =
             Some (fstar, var', gp\<lparr>update := False, alpha := a, solver := Some (llt ?n ?K)\<rparr>, tr)"
    by blast
  have same: "map_option fst (predict gp x w c) = Some fstar" for w c
  proof -
    from predict_nonempty[OF ok assms(2,3), of w c]
    obtain a2 f2 r2 where
      "solveInPlace (llt ?n ?K) (map target (sampleset gp)) = Some a2"
      "dot (kstar_of gp x) a2 = Some f2"
      "predict gp x w c = Some (f2, r2)"
      by blast
    with a f show ?thesis by simp
  qed
  have pv: "map_option fst (predict_var gp x var) = Some fstar"
    using same[of var True] by (simp add: predict_var_def)
  have pm: "map_option fst (predict_mean gp x) = Some fstar"
    using same[of undefined False]
    by (auto simp: predict_mean_def option.map_comp comp_def split_def)
  have sol: "(\<Sum>j<?n. selfadjoint_lower ?K i j * a ! j) = target (sampleset gp ! i)"
    if s: "info (llt ?n ?K) = Success" and i: "i < ?n" for i
  proof -
    have pos: "\<forall>j<?n. 0 < pivot ?K j" using s by (simp add: info_llt)
    have av: "a = map (backward_subst (chol ?K) ?n
                        (forward_subst (chol ?K) (\<lambda>k. map target (sampleset gp) ! k))) [0..<?n]"
      using a by (simp add: solveInPlace_def llt_def)
    have "(\<Sum>j<?n. selfadjoint_lower ?K i j * a ! j) =
          (\<Sum>j<?n. selfadjoint_lower ?K i j *
             backward_subst (chol ?K) ?n
               (forward_subst (chol ?K) (\<lambda>k. map target (sampleset gp) ! k)) j)"
      by (rule sum.cong) (simp_all add: av)
    also have "\<dots> = map target (sampleset gp) ! i"
      by (rule llt_solve_solves[OF pos i])
    finally show ?thesis using i by simp
  qed
  show ?thesis
    using a f p pv pm sol
    by (intro exI[of _ fstar] exI[of _ var']
          exI[of _ "gp\<lparr>update := False, alpha := a, solver := Some (llt ?n ?K)\<rparr>"] exI[of _ tr])
       simp
qed

text \<open>
  Two samples with the targets 3 and 5 and the identity as Gram matrix: the mean at the
  input of the second sample is 5.
\<close>

theorem predict_mean_kstar_dot_alpha_witness:
  "reachable gp_two \<and> sampleset gp_two \<noteq> [] \<and> input_dim gp_two \<le> length [1 :: real] \<and>
   info (llt 2 (Gram (covf gp_two) (sampleset gp_two))) = Success \<and>
   map_option fst (predict gp_two [1] 0 False) = Some 5"
proof -
  have h: "sampleset gp_two \<noteq> []" "input_dim gp_two \<le> length [1 :: real]"
    by (simp_all add: gp_two_def)
  from predict_mean_kstar_dot_alpha[OF reachable_gp_two h, of 0 False]
  obtain fstar var' gp' tr where
    p: "predict gp_two [1] 0 False = Some (fstar, var', gp', tr)"
    and d: "dot (kstar_of gp_two [1]) (alpha gp') = Some fstar"
    and a: "solveInPlace (llt (length (sampleset gp_two)) (Gram (covf gp_two) (sampleset gp_two)))
             (map target (sampleset gp_two)) = Some (alpha gp')"
    by blast
  have "length (sampleset gp_two) = 2" "map target (sampleset gp_two) = [3, 5]"
    by (simp_all add: gp_two_def)
  with a have "alpha gp' = [3, 5]" by (simp add: solveInPlace_two)
  with d have "fstar = 5" by (simp add: kstar_two dot_def numeral_2_eq_2)
  with p h reachable_gp_two info_two show ?thesis by simp
qed

subsection \<open>C2: the variance\<close>

text \<open>
  C2. On every engine with at least one sample, \<^verbatim>\<open>predict\<close> with the variance
  requested stores in \<open>var\<close> the value \<open>get(x, x) - v \<cdot> v\<close>, where \<open>v\<close> is what forward
  substitution against the factor \<open>L\<close> gives for \<open>kstar\<close>; whenever the factorisation
  succeeds, \<open>L v = kstar\<close>. The value is stored as it is, whatever its sign.
\<close>

theorem predict_variance_raw:
  assumes "reachable gp" "sampleset gp \<noteq> []" "input_dim gp \<le> length x"
  shows "\<exists>fstar gp' tr v vv.
           predict gp x var True =
             Some (fstar,
                   covf_get (covf gp) (take (input_dim gp) x) (take (input_dim gp) x) - vv,
                   gp', tr) \<and>
           predict_var gp x var = predict gp x var True \<and>
           solver gp' = Some (llt (length (sampleset gp)) (Gram (covf gp) (sampleset gp))) \<and>
           matrixL_solve (llt (length (sampleset gp)) (Gram (covf gp) (sampleset gp)))
             (kstar_of gp x) = Some v \<and>
           dot v v = Some vv \<and>
           (info (llt (length (sampleset gp)) (Gram (covf gp) (sampleset gp))) = Success \<longrightarrow>
              (\<forall>i<length (sampleset gp).
                 (\<Sum>k\<le>i. matrixL (llt (length (sampleset gp)) (Gram (covf gp) (sampleset gp))) i k
                          * v ! k) = kstar_of gp x ! i))"
proof -
  let ?n = "length (sampleset gp)"
  let ?K = "Gram (covf gp) (sampleset gp)"
  from predict_nonempty[OF reachable_cache_ok[OF assms(1)] assms(2,3), of var True]
  obtain a tr fstar v vv var' where
    v: "matrixL_solve (llt ?n ?K) (kstar_of gp x) = Some v"
    and vv: "dot v v = Some vv"
    and va: "var' = (if True then covf_get (covf gp) (take (input_dim gp) x)
                                    (take (input_dim gp) x) - vv else var)"
    and p0: "predict gp x var True =
             Some (fstar, var', gp\<lparr>update := False, alpha := a, solver := Some (llt ?n ?K)\<rparr>, tr)"
    by blast
  have p: "predict gp x var True =
             Some (fstar, covf_get (covf gp) (take (input_dim gp) x) (take (input_dim gp) x) - vv,
                   gp\<lparr>update := False, alpha := a, solver := Some (llt ?n ?K)\<rparr>, tr)"
    using p0 va by simp
  have sol: "(\<Sum>k\<le>i. chol ?K i k * v ! k) = kstar_of gp x ! i"
    if ok: "info (llt ?n ?K) = Success" and i: "i < ?n" for i
  proof -
    have nz: "chol ?K i i \<noteq> 0"
      using ok i chol_diag_pos[of ?K i] by (auto simp: info_llt)
    have vd: "v = map (forward_subst (chol ?K) (\<lambda>k. kstar_of gp x ! k)) [0..<?n]"
      using v by (auto simp: matrixL_solve_def llt_def split: if_splits)
    have "(\<Sum>k\<le>i. chol ?K i k * v ! k) =
          (\<Sum>k\<le>i. chol ?K i k * forward_subst (chol ?K) (\<lambda>k. kstar_of gp x ! k) k)"
      by (rule sum.cong) (use i in \<open>simp_all add: vd\<close>)
    also have "\<dots> = kstar_of gp x ! i"
      using forward_subst_solves[of "chol ?K" i "\<lambda>k. kstar_of gp x ! k"] nz by simp
    finally show ?thesis .
  qed
  show ?thesis
    using v vv p sol
    by (intro exI[of _ fstar] exI[of _ "gp\<lparr>update := False, alpha := a, solver := Some (llt ?n ?K)\<rparr>"]
          exI[of _ tr] exI[of _ v] exI[of _ vv]) (simp add: llt_def predict_var_def)
qed

text \<open>
  One sample, the kernel \<open>1 - (a - b)\<^sup>2\<close> and the query 2: \<open>kstar\<close> and \<open>v\<close> are \<open>-3\<close>,
  and the variance reported is \<open>1 - 9 = -8\<close>, a negative value.
\<close>

theorem predict_variance_raw_witness:
  "reachable (gp_one 1) \<and> sampleset (gp_one 1) \<noteq> [] \<and>
   input_dim (gp_one 1) \<le> length [2 :: real] \<and>
   info (llt 1 (Gram (covf (gp_one 1)) (sampleset (gp_one 1)))) = Success \<and>
   map_option (fst \<circ> snd) (predict (gp_one 1) [2] 0 True) = Some (- 8)"
proof -
  have h: "sampleset (gp_one 1) \<noteq> []" "input_dim (gp_one 1) \<le> length [2 :: real]"
    by (simp_all add: gp_one_def)
  have e: "length (sampleset (gp_one 1)) = Suc 0" "covf (gp_one 1) = cov_parabola 1"
    "sampleset (gp_one 1) = [\<lparr> input = [0], target = 3 \<rparr>]" "input_dim (gp_one 1) = Suc 0"
    by (simp_all add: gp_one_def)
  from predict_variance_raw[OF reachable_gp_one h, of 0]
  obtain fstar gp' tr v vv where
    p: "predict (gp_one 1) [2] 0 True =
             Some (fstar, covf_get (covf (gp_one 1)) (take (input_dim (gp_one 1)) [2])
                     (take (input_dim (gp_one 1)) [2]) - vv, gp', tr)"
    and v: "matrixL_solve (llt (length (sampleset (gp_one 1)))
               (Gram (covf (gp_one 1)) (sampleset (gp_one 1)))) (kstar_of (gp_one 1) [2]) = Some v"
    and vv: "dot v v = Some vv"
    by blast
  from v have "v = [- 3]" by (simp add: e kstar_one matrixL_solve_one)
  with vv have "vv = 9" by (simp add: dot_def)
  moreover have "covf_get (cov_parabola 1) [2] [2] = 1"
    by (simp add: covf_get_def cov_parabola_def)
  ultimately have "map_option (fst \<circ> snd) (predict (gp_one 1) [2] 0 True) = Some (- 8)"
    using p by (simp add: e)
  moreover have "info (llt 1 (Gram (covf (gp_one 1)) (sampleset (gp_one 1)))) = Success"
    by (simp add: e info_one)
  ultimately show ?thesis using h reachable_gp_one by simp
qed

subsection \<open>C3: prediction on an empty sample set\<close>

text \<open>
  C3. On an engine whose sample set is empty, \<^verbatim>\<open>predict\<close> returns the mean 0 and
  nothing else happens: \<open>var\<close> keeps its content also when the variance is requested, the
  engine is the same afterwards (flag, \<open>alpha\<close> and solver included), and no call of the
  kernel or of the factorisation is made.
\<close>

theorem predict_empty_sampleset:
  assumes "sampleset gp = []"
  shows "predict gp x var cv = Some (0, var, gp, [])"
  using assms by (rule predict_empty)

text \<open>
  The engine right after the constructor has no samples: a prediction with the variance
  requested gives 0 and leaves 7 in \<open>var\<close>.
\<close>

theorem predict_empty_sampleset_witness:
  "sampleset gp_none = [] \<and> predict gp_none [4] 7 True = Some (0, 7, gp_none, [])"
  using predict_empty_sampleset[of gp_none "[4]" 7 True]
  by (simp add: gp_none_def GaussianProcess_new_def)

subsection \<open>C4: a Gram matrix that is not positive definite\<close>

text \<open>
  The claim C4 as stated fails. One sample and the kernel \<open>0 - (a - b)\<^sup>2\<close> give the Gram
  matrix \<open>(0)\<close>, which is not positive definite; \<^verbatim>\<open>predict\<close> on the dirty engine returns
  a mean all the same, and the flag is clear afterwards.
\<close>

theorem predict_not_positive_definite_counterexample:
  "sampleset (gp_one 0) \<noteq> [] \<and> update (gp_one 0) \<and>
   \<not> positive_definite 1 (selfadjoint_lower (Gram (covf (gp_one 0)) (sampleset (gp_one 0)))) \<and>
   map_option (update \<circ> fst \<circ> snd \<circ> snd) (predict (gp_one 0) [2] 0 False) = Some False"
proof -
  have h: "sampleset (gp_one 0) \<noteq> []" "update (gp_one 0)" "input_dim (gp_one 0) \<le> length [2 :: real]"
    by (simp_all add: gp_one_def)
  from predict_rebuilds_clean[OF h, of 0 False]
  have "map_option (update \<circ> fst \<circ> snd \<circ> snd) (predict (gp_one 0) [2] 0 False) = Some False"
    by auto
  with h not_positive_definite_gp_one_0 show ?thesis by simp
qed

text \<open>
  C4, amended. When the Gram matrix is not positive definite at the rebuild, \<^verbatim>\<open>predict\<close>
  does not fail: it returns a mean, the flag is Clean afterwards (the rebuild clears it
  before it factorises), and the failure is recorded only in the \<open>info\<close> of the solver,
  which \<^verbatim>\<open>predict\<close> never reads.
\<close>

theorem predict_ignores_failed_factorisation:
  assumes "sampleset gp \<noteq> []" "update gp" "input_dim gp \<le> length x"
    and "\<not> positive_definite (length (sampleset gp))
             (selfadjoint_lower (Gram (covf gp) (sampleset gp)))"
  shows "\<exists>fstar var' gp' tr s.
           predict gp x var cv = Some (fstar, var', gp', tr) \<and>
           \<not> update gp' \<and> solver gp' = Some s \<and> info s = NumericalIssue"
proof -
  let ?s = "llt (length (sampleset gp)) (Gram (covf gp) (sampleset gp))"
  have "info ?s \<noteq> Success"
    using assms(4) llt_success_positive_definite[of "length (sampleset gp)" "Gram (covf gp) (sampleset gp)"]
    by (auto simp: info_llt)
  then have i: "info ?s = NumericalIssue" by (cases "info ?s") simp_all
  from predict_rebuilds_clean[OF assms(1-3), of var cv] obtain fstar var' a tr where
    p: "predict gp x var cv = Some (fstar, var', gp\<lparr>update := False, alpha := a, solver := Some ?s\<rparr>, tr)"
    by blast
  show ?thesis
    using p i
    by (intro exI[of _ fstar] exI[of _ var']
          exI[of _ "gp\<lparr>update := False, alpha := a, solver := Some ?s\<rparr>"] exI[of _ tr] exI[of _ ?s])
       simp
qed

text \<open>
  On the engine with the Gram matrix \<open>(0)\<close> the solver holds \<open>NumericalIssue\<close> after the
  call.
\<close>

theorem predict_ignores_failed_factorisation_witness:
  "sampleset (gp_one 0) \<noteq> [] \<and> update (gp_one 0) \<and> input_dim (gp_one 0) \<le> length [2 :: real] \<and>
   \<not> positive_definite (length (sampleset (gp_one 0)))
        (selfadjoint_lower (Gram (covf (gp_one 0)) (sampleset (gp_one 0)))) \<and>
   map_option (\<lambda>r. map_option info (solver (fst (snd (snd r))))) (predict (gp_one 0) [2] 0 True)
     = Some (Some NumericalIssue)"
proof -
  have h: "sampleset (gp_one 0) \<noteq> []" "update (gp_one 0)" "input_dim (gp_one 0) \<le> length [2 :: real]"
    by (simp_all add: gp_one_def)
  have n: "\<not> positive_definite (length (sampleset (gp_one 0)))
        (selfadjoint_lower (Gram (covf (gp_one 0)) (sampleset (gp_one 0))))"
    using not_positive_definite_gp_one_0 by (simp add: gp_one_def)
  from predict_ignores_failed_factorisation[OF h n, of 0 True] h n show ?thesis
    by auto
qed

subsection \<open>C5: the flag after the constructor\<close>

text \<open>
  C5. The constructor from a dimension and a kernel description does not assign the flag
  \<open>update\<close>: after it the flag holds whatever the member held before, so the engine does
  not start in the state Dirty by this constructor's doing. The constructor from a file
  ends with \<^verbatim>\<open>update = 1\<close> (lemma \<open>load_update\<close>); \<^verbatim>\<open>add_pattern\<close> and
  \<^verbatim>\<open>set_params\<close> set the flag, \<^verbatim>\<open>clear_sampleset\<close> keeps it, and \<^verbatim>\<open>predict\<close> clears
  it exactly when it rebuilds (lemmas \<open>exec_update\<close> and \<open>predict_Some_state\<close>). No call
  reads the flag the constructor left: \<^verbatim>\<open>predict\<close> returns before the test while there is
  no sample, and the first \<^verbatim>\<open>add_pattern\<close> or \<^verbatim>\<open>set_params\<close> overwrites it (lemma
  \<open>GaussianProcess_new_flag_unread\<close>).
\<close>

theorem GaussianProcess_new_update: "update (GaussianProcess_new u d cf) = u"
  by (simp add: GaussianProcess_new_def)

subsection \<open>C6: add_pattern and the length of its array\<close>

text \<open>
  The claim C6 as stated fails: \<^verbatim>\<open>add_pattern\<close> on an engine of input dimension 1,
  given an array of two values, appends a sample, and the size grows by one.
\<close>

theorem add_pattern_length_counterexample:
  "length [1, 2 :: real] \<noteq> input_dim gp_none \<and>
   map_option get_sampleset_size (add_pattern gp_none [1, 2] 5) =
     Some (Suc (get_sampleset_size gp_none))"
  by (simp add: add_pattern_eq gp_none_def GaussianProcess_new_def get_sampleset_size_def)

text \<open>
  C6, amended. \<^verbatim>\<open>add_pattern\<close> receives a bare array and checks no length: for every
  array that holds at least \<open>input_dim\<close> values it appends the sample made of the first
  \<open>input_dim\<close> values and the target, and sets the flag.
\<close>

theorem add_pattern_appends:
  assumes "input_dim gp \<le> length x"
  shows "add_pattern gp x y =
           Some (gp\<lparr>sampleset := sampleset gp @ [\<lparr> input = take (input_dim gp) x, target = y \<rparr>],
                    update := True\<rparr>)"
  using assms by (simp add: add_pattern_eq)

text \<open>
  On the engine of input dimension 1 and the array of the values 1 and 2, the sample
  appended has the input 1.
\<close>

theorem add_pattern_appends_witness:
  "input_dim gp_none \<le> length [1, 2 :: real] \<and>
   add_pattern gp_none [1, 2] 5 =
     Some (gp_none\<lparr>sampleset := [\<lparr> input = [1], target = 5 \<rparr>], update := True\<rparr>)"
  using add_pattern_appends[of gp_none "[1, 2]" 5]
  by (simp add: gp_none_def GaussianProcess_new_def)

subsection \<open>C7: set_params and the length of its array\<close>

text \<open>
  The claim C7 as stated fails: \<^verbatim>\<open>set_params\<close> on a kernel with one hyperparameter,
  given an array of two values, replaces the hyperparameter 1 by 7.
\<close>

theorem set_params_length_counterexample:
  "length [7, 8 :: real] \<noteq> param_dim (covf gp_none) \<and>
   loghyper (covf gp_none) = [1] \<and>
   map_option (loghyper \<circ> covf) (set_params gp_none [7, 8]) = Some [7]"
  by (simp add: set_params_eq gp_none_def GaussianProcess_new_def cov_parabola_def)

text \<open>
  C7, amended. \<^verbatim>\<open>set_params\<close> receives a bare array and checks no length: for every
  array that holds at least \<open>param_dim\<close> values it replaces the whole hyperparameter
  vector by the first \<open>param_dim\<close> values, and sets the flag.
\<close>

theorem set_params_replaces:
  assumes "param_dim (covf gp) \<le> length p"
  shows "set_params gp p =
           Some (gp\<lparr>covf := (covf gp)\<lparr>loghyper := take (param_dim (covf gp)) p\<rparr>,
                    update := True\<rparr>)"
  using assms by (simp add: set_params_eq)

text \<open>
  On the kernel with one hyperparameter and the array of the values 7 and 8, the
  hyperparameter becomes 7.
\<close>

theorem set_params_replaces_witness:
  "param_dim (covf gp_none) \<le> length [7, 8 :: real] \<and>
   set_params gp_none [7, 8] =
     Some (gp_none\<lparr>covf := cov_parabola 7, update := True\<rparr>)"
  using set_params_replaces[of gp_none "[7, 8]"]
  by (simp add: gp_none_def GaussianProcess_new_def cov_parabola_def)

subsection \<open>C8: the kernel calls of a rebuild\<close>

text \<open>
  C8. A call of \<^verbatim>\<open>predict\<close> that rebuilds (samples present, flag set) calls the kernel
  on a pair of samples exactly for the index pairs of the lower triangle, the second index
  at most the first, each pair once, column by column: \<open>n (n + 1) / 2\<close> calls for \<open>n\<close>
  samples. The matrix factorised holds these values.
\<close>

theorem rebuild_kernel_calls_lower_triangle:
  assumes "sampleset gp \<noteq> []" "update gp" "input_dim gp \<le> length x"
  shows "\<exists>fstar var' gp' tr.
           predict gp x var cv = Some (fstar, var', gp', tr) \<and>
           solver gp' = Some (llt (length (sampleset gp)) (Gram (covf gp) (sampleset gp))) \<and>
           gram_calls tr = lower_triangle (length (sampleset gp)) \<and>
           (\<forall>(r, c)\<in>set (gram_calls tr). c \<le> r \<and> r < length (sampleset gp)) \<and>
           distinct (gram_calls tr) \<and>
           length (gram_calls tr) = length (sampleset gp) * (length (sampleset gp) + 1) div 2"
proof -
  let ?n = "length (sampleset gp)"
  let ?K = "Gram (covf gp) (sampleset gp)"
  from predict_nonempty[OF cache_ok_dirty[OF assms(2)] assms(1,3), of var cv] assms(2)
  obtain a tr1 fstar var' tr where
    c: "gram_calls tr1 = lower_triangle ?n"
    and t: "tr = tr1 @ map Kernel_star [0..<?n] @ (if cv then [Kernel_self] else [])"
    and p: "predict gp x var cv =
             Some (fstar, var', gp\<lparr>update := False, alpha := a, solver := Some (llt ?n ?K)\<rparr>, tr)"
    by auto
  have g: "gram_calls tr = lower_triangle ?n"
    by (simp add: t c gram_calls_append gram_calls_star)
  show ?thesis
    using p g
    by (intro exI[of _ fstar] exI[of _ var']
          exI[of _ "gp\<lparr>update := False, alpha := a, solver := Some (llt ?n ?K)\<rparr>"] exI[of _ tr])
       (auto simp: set_lower_triangle distinct_lower_triangle length_lower_triangle)
qed

text \<open>
  With two samples the calls are those for the pairs (0, 0), (1, 0) and (1, 1).
\<close>

theorem rebuild_kernel_calls_lower_triangle_witness:
  "sampleset gp_two \<noteq> [] \<and> update gp_two \<and> input_dim gp_two \<le> length [1 :: real] \<and>
   map_option (gram_calls \<circ> snd \<circ> snd \<circ> snd) (predict gp_two [1] 0 True) =
     Some [(0, 0), (1, 0), (1, 1)]"
proof -
  have h: "sampleset gp_two \<noteq> []" "update gp_two" "input_dim gp_two \<le> length [1 :: real]"
    by (simp_all add: gp_two_def)
  have l: "lower_triangle (length (sampleset gp_two)) = [(0, 0), (1, 0), (1, 1)]"
    by (simp add: gp_two_def lower_triangle_def upt_rec)
  from rebuild_kernel_calls_lower_triangle[OF h, of 0 True] l h show ?thesis
    by auto
qed

subsection \<open>C9: growth of the sample set\<close>

text \<open>
  C9. The core operations are \<^verbatim>\<open>add_pattern\<close>, \<^verbatim>\<open>set_params\<close> and \<^verbatim>\<open>predict\<close>. Along
  every sequence of them the size of the sample set never decreases and no sample is
  removed: the samples held before are still there, in their order, and the sample set
  has grown at its end by exactly one sample for each \<^verbatim>\<open>add_pattern\<close> in the sequence, so
  \<^verbatim>\<open>add_pattern\<close> is the only one of them that changes it.
\<close>

theorem sampleset_grows_by_add_pattern:
  assumes "run gp cs = Some gp'" "Clear_sampleset \<notin> set cs"
  shows "get_sampleset_size gp \<le> get_sampleset_size gp' \<and>
         (\<exists>new. sampleset gp' = sampleset gp @ new \<and> length new = adds cs)"
proof -
  have "\<exists>new. sampleset gp' = sampleset gp @ new \<and> length new = adds cs"
    using assms
  proof (induction cs arbitrary: gp)
    case Nil
    then show ?case by simp
  next
    case (Cons c cs)
    from Cons.prems(1) obtain g where g: "exec gp c = Some g" "run g cs = Some gp'"
      by (auto split: option.splits)
    from exec_sampleset[OF g(1)] Cons.prems(2) obtain new1 where
      n1: "sampleset g = sampleset gp @ new1" "length new1 = adds [c]" by auto
    from Cons.IH[OF g(2)] Cons.prems(2) obtain new2 where
      n2: "sampleset gp' = sampleset g @ new2" "length new2 = adds cs" by auto
    have "sampleset gp' = sampleset gp @ (new1 @ new2)" "length (new1 @ new2) = adds (c # cs)"
      using n1 n2 adds_Cons[of c cs] by simp_all
    then show ?case by blast
  qed
  then show ?thesis by (auto simp: get_sampleset_size_def)
qed

text \<open>
  Two calls of \<^verbatim>\<open>add_pattern\<close> around one of \<^verbatim>\<open>set_params\<close> take the engine without
  samples to the one with two.
\<close>

theorem sampleset_grows_by_add_pattern_witness:
  "run gp_none [Add_pattern [0] 3, Set_params [1], Add_pattern [1] 5] = Some gp_two \<and>
   Clear_sampleset \<notin> set [Add_pattern [0] 3, Set_params [1], Add_pattern [1] 5] \<and>
   get_sampleset_size gp_none \<le> get_sampleset_size gp_two \<and>
   (\<exists>new. sampleset gp_two = sampleset gp_none @ new \<and> length new = 2)"
proof -
  have r: "run gp_none [Add_pattern [0] 3, Set_params [1], Add_pattern [1] 5] = Some gp_two"
    by (simp add: add_pattern_eq set_params_eq gp_none_def gp_two_def GaussianProcess_new_def
          cov_parabola_def)
  have c: "Clear_sampleset \<notin> set [Add_pattern [0] 3, Set_params [1], Add_pattern [1] 5]"
    by simp
  have "adds [Add_pattern [0] 3, Set_params [1], Add_pattern [1] 5] = 2"
    by simp
  with sampleset_grows_by_add_pattern[OF r c] r c show ?thesis
    by (simp only: simp_thms)
qed

subsection \<open>C10: prediction without the variance\<close>

text \<open>
  C10. A call of \<^verbatim>\<open>predict\<close> with \<open>compute_variance\<close> false returns with the content
  of \<open>var\<close> as it was, and never calls \<^verbatim>\<open>get(x, x)\<close>; the overload with one argument
  returns the same mean and leaves the same engine.
\<close>

theorem predict_without_variance_keeps_var:
  assumes "reachable gp" "sampleset gp = [] \<or> input_dim gp \<le> length x"
  shows "\<exists>fstar gp' tr.
           predict gp x var False = Some (fstar, var, gp', tr) \<and>
           predict_mean gp x = Some (fstar, gp', tr) \<and>
           Kernel_self \<notin> set tr"
proof (cases "sampleset gp = []")
  case True
  then show ?thesis by (simp add: predict_empty predict_mean_def)
next
  case False
  with assms(2) have d: "input_dim gp \<le> length x" by simp
  have ok: "cache_ok gp" using assms(1) by (rule reachable_cache_ok)
  from predict_nonempty[OF ok False d, of var False]
  obtain fstar gp' tr where p: "predict gp x var False = Some (fstar, var, gp', tr)"
    by auto
  have "predict gp x undefined False = Some (fstar, undefined, gp', tr)"
    using predict_var_frame[of gp x undefined var] p by simp
  then have "predict_mean gp x = Some (fstar, gp', tr)"
    by (simp add: predict_mean_def)
  with p predict_no_self[OF p] show ?thesis by blast
qed

text \<open>
  On the engine with one sample, 7 is still in \<open>var\<close> after the call, and the overload
  with one argument returns the same mean.
\<close>

theorem predict_without_variance_keeps_var_witness:
  "reachable (gp_one 1) \<and> (sampleset (gp_one 1) = [] \<or> input_dim (gp_one 1) \<le> length [2 :: real]) \<and>
   map_option (fst \<circ> snd) (predict (gp_one 1) [2] 7 False) = Some 7 \<and>
   map_option fst (predict_mean (gp_one 1) [2]) = map_option fst (predict (gp_one 1) [2] 7 False)"
proof -
  have h: "sampleset (gp_one 1) = [] \<or> input_dim (gp_one 1) \<le> length [2 :: real]"
    by (simp add: gp_one_def)
  from predict_without_variance_keeps_var[OF reachable_gp_one h, of 7] h reachable_gp_one
  show ?thesis by auto
qed

end
